theory Spec2Isabelle
  imports Complex_Main
begin

section \<open>The serving layer of the drone tracker (backend/main.py)\<close>

text \<open>
  The development follows \<^verbatim>\<open>src/backend/main.py\<close>: the camera control and status
  routes, the health check, the WebSocket connection manager and endpoint, and the
  generator of the video stream. The class \<^verbatim>\<open>DroneTracker\<close> (module \<^verbatim>\<open>tracker\<close>)
  is imported by the file but its code is not part of it, so the routes are modelled over
  an arbitrary tracker: a state of type \<open>'s\<close> and one state transformer per method the
  routes call. Every invocation of a tracker method is appended to a list of calls, so
  that "this route does not call \<^verbatim>\<open>start\<close>" is a statement about that list.
  Calls to \<^verbatim>\<open>logger\<close> are left out throughout: they touch nothing else.
\<close>

subsection \<open>Strings\<close>

text \<open>
  \<^verbatim>\<open>action.lower()\<close>. A \<^typ>\<open>char\<close> stands for one code point below 256. On these,
  \<^verbatim>\<open>str.lower\<close> works character by character: it adds 32 to \<open>A\<close>..\<open>Z\<close> and to
  the capital letters of the Latin-1 block (192..222 without the multiplication sign
  215) and leaves every other code point as it is.
\<close>

definition lower_char :: "char \<Rightarrow> char" where
  "lower_char c =
     (let n = (of_char c :: nat)
      in if (65 \<le> n \<and> n \<le> 90) \<or> (192 \<le> n \<and> n \<le> 222 \<and> n \<noteq> 215)
         then char_of (n + 32) else c)"

definition lower :: "string \<Rightarrow> string" where
  "lower s = map lower_char s"

subsection \<open>The tracker as the routes see it\<close>

text \<open>
  The five methods of \<^verbatim>\<open>DroneTracker\<close> that main.py calls, with the result
  types its uses of them require: a running flag, a count, a success flag for
  \<^verbatim>\<open>start\<close> and \<^verbatim>\<open>stop\<close>, and a frame or \<^verbatim>\<open>None\<close>. Each takes the
  tracker's state and returns its result with the state it leaves.

  The global \<^verbatim>\<open>tracker\<close> is \<^verbatim>\<open>None\<close> or a \<^verbatim>\<open>DroneTracker\<close>, here a value of
  \<open>'s option\<close>; in the tests \<^verbatim>\<open>if not tracker\<close> and \<^verbatim>\<open>if tracker\<close> an instance
  counts as true. A route is followed on its own: the capture thread does not change
  the tracker between two calls of the same route.
\<close>

record ('s, 'f) tracker_ops =
  is_camera_running :: "'s \<Rightarrow> bool \<times> 's"
  get_today_detection_count :: "'s \<Rightarrow> int \<times> 's"
  start :: "'s \<Rightarrow> bool \<times> 's"
  stop :: "'s \<Rightarrow> bool \<times> 's"
  get_latest_frame :: "'s \<Rightarrow> 'f option \<times> 's"

datatype call =
    Call_is_camera_running
  | Call_get_today_detection_count
  | Call_start
  | Call_stop
  | Call_get_latest_frame

text \<open>One method call: run the method on the state, record the call.\<close>

definition invoke :: "call \<Rightarrow> ('s \<Rightarrow> 'a \<times> 's) \<Rightarrow> 's \<times> call list \<Rightarrow> 'a \<times> 's \<times> call list" where
  "invoke c m w = (case m (fst w) of (r, s') \<Rightarrow> (r, s', snd w @ [c]))"

definition tracker_is_camera_running ::
  "('s, 'f) tracker_ops \<Rightarrow> 's \<times> call list \<Rightarrow> bool \<times> 's \<times> call list" where
  "tracker_is_camera_running ops = invoke Call_is_camera_running (is_camera_running ops)"

definition tracker_get_today_detection_count ::
  "('s, 'f) tracker_ops \<Rightarrow> 's \<times> call list \<Rightarrow> int \<times> 's \<times> call list" where
  "tracker_get_today_detection_count ops =
     invoke Call_get_today_detection_count (get_today_detection_count ops)"

definition tracker_start ::
  "('s, 'f) tracker_ops \<Rightarrow> 's \<times> call list \<Rightarrow> bool \<times> 's \<times> call list" where
  "tracker_start ops = invoke Call_start (start ops)"

definition tracker_stop ::
  "('s, 'f) tracker_ops \<Rightarrow> 's \<times> call list \<Rightarrow> bool \<times> 's \<times> call list" where
  "tracker_stop ops = invoke Call_stop (stop ops)"

definition tracker_get_latest_frame ::
  "('s, 'f) tracker_ops \<Rightarrow> 's \<times> call list \<Rightarrow> 'f option \<times> 's \<times> call list" where
  "tracker_get_latest_frame ops = invoke Call_get_latest_frame (get_latest_frame ops)"

subsection \<open>Responses\<close>

text \<open>
  \<^verbatim>\<open>CameraStatus\<close> comes from the module \<^verbatim>\<open>models\<close>; the routes build it
  from exactly these three keyword arguments. \<^verbatim>\<open>HTTPException\<close> is FastAPI's, raised
  with a status code and a detail.
\<close>

record CameraStatus =
  is_running :: bool
  message :: string
  total_detections_today :: int

datatype http_exception = HTTPException (status_code: nat) (detail: string)

text \<open>
  A route's outcome: what it returns or raises, the global \<^verbatim>\<open>tracker\<close> afterwards
  (\<open>None\<close> when uninitialised) and the tracker methods it called, in order.
\<close>

type_synonym ('r, 's) outcome = "'r \<times> 's option \<times> call list"

definition finish :: "'r \<Rightarrow> 's \<times> call list \<Rightarrow> ('r, 's) outcome" where
  "finish r w = (r, Some (fst w), snd w)"

definition invalid_action_detail :: string where
  "invalid_action_detail =
     ''Invalid action. Use '' @ [CHR 0x27] @ ''start'' @ [CHR 0x27] @ '' or ''
       @ [CHR 0x27] @ ''stop'' @ [CHR 0x27]"

subsection \<open>POST /camera/{action}\<close>

fun camera_control ::
  "('s, 'f) tracker_ops \<Rightarrow> 's option \<Rightarrow> string \<Rightarrow> (http_exception + CameraStatus, 's) outcome" where
  "camera_control ops None action =
     (Inl (HTTPException 503 ''Tracker not initialized''), None, [])"
| "camera_control ops (Some t) action =
     (if lower action = ''start'' then
        (let (running, w1) = tracker_is_camera_running ops (t, []) in
         if running then
           (let (n, w2) = tracker_get_today_detection_count ops w1 in
            finish (Inr \<lparr>is_running = True, message = ''Camera is already running'',
                         total_detections_today = n\<rparr>) w2)
         else
           (let (success, w2) = tracker_start ops w1 in
            if success then
              (let (n, w3) = tracker_get_today_detection_count ops w2 in
               finish (Inr \<lparr>is_running = True, message = ''Camera started successfully'',
                            total_detections_today = n\<rparr>) w3)
            else finish (Inl (HTTPException 500 ''Failed to start camera'')) w2))
      else if lower action = ''stop'' then
        (let (running, w1) = tracker_is_camera_running ops (t, []) in
         if \<not> running then
           (let (n, w2) = tracker_get_today_detection_count ops w1 in
            finish (Inr \<lparr>is_running = False, message = ''Camera is already stopped'',
                         total_detections_today = n\<rparr>) w2)
         else
           (let (success, w2) = tracker_stop ops w1 in
            if success then
              (let (n, w3) = tracker_get_today_detection_count ops w2 in
               finish (Inr \<lparr>is_running = False, message = ''Camera stopped successfully'',
                            total_detections_today = n\<rparr>) w3)
            else finish (Inl (HTTPException 500 ''Failed to stop camera'')) w2))
      else finish (Inl (HTTPException 400 invalid_action_detail)) (t, []))"

subsection \<open>GET /camera/status and GET /health\<close>

fun camera_status :: "('s, 'f) tracker_ops \<Rightarrow> 's option \<Rightarrow> (CameraStatus, 's) outcome" where
  "camera_status ops None =
     (\<lparr>is_running = False, message = ''Tracker not initialized'',
       total_detections_today = 0\<rparr>, None, [])"
| "camera_status ops (Some t) =
     (let (running, w1) = tracker_is_camera_running ops (t, []);
          (n, w2) = tracker_get_today_detection_count ops w1
      in finish \<lparr>is_running = running, message = ''Camera status retrieved'',
                  total_detections_today = n\<rparr> w2)"

text \<open>
  The values of the dictionaries the file builds. A dictionary literal is a list of
  key and value in the order written, which is also the order \<^verbatim>\<open>json.dumps\<close>
  keeps. \<open>now\<close> is the reading of \<^verbatim>\<open>datetime.now().isoformat()\<close>.
\<close>

datatype json = JStr string | JBool bool | JInt int

type_synonym py_dict = "(string \<times> json) list"

fun health_check :: "('s, 'f) tracker_ops \<Rightarrow> string \<Rightarrow> 's option \<Rightarrow> (py_dict, 's) outcome" where
  "health_check ops now None =
     ([(''status'', JStr ''healthy''), (''tracker_initialized'', JBool False),
       (''camera_running'', JBool False), (''timestamp'', JStr now)], None, [])"
| "health_check ops now (Some t) =
     (let (running, w1) = tracker_is_camera_running ops (t, [])
      in finish [(''status'', JStr ''healthy''), (''tracker_initialized'', JBool True),
                 (''camera_running'', JBool running), (''timestamp'', JStr now)] w1)"

subsection \<open>The WebSocket connection manager\<close>

text \<open>
  A WebSocket is an identity (\<^verbatim>\<open>in\<close> and \<^verbatim>\<open>remove\<close> compare connection objects by
  identity). What the file does on sockets is kept as a list of attempts:
  \<^verbatim>\<open>accept()\<close>, \<^verbatim>\<open>send_text(message)\<close> with a string, and
  \<^verbatim>\<open>send_text(json.dumps(d))\<close> with the dictionary \<open>d\<close> it serialises. What an
  attempt comes to is a parameter, so that every exception is a branch of the model.
  A call of the manager is followed on its own, with no other coroutine touching the
  list of connections while it waits for a send.
\<close>

datatype 'c io =
    Accept 'c
  | Send_text 'c string
  | Send_json 'c py_dict

record 'c ConnectionManager =
  active_connections :: "'c list"

definition connect :: "'c ConnectionManager \<Rightarrow> 'c \<Rightarrow> 'c ConnectionManager \<times> 'c io list" where
  "connect m websocket =
     (m\<lparr>active_connections := active_connections m @ [websocket]\<rparr>, [Accept websocket])"

definition disconnect :: "'c ConnectionManager \<Rightarrow> 'c \<Rightarrow> 'c ConnectionManager" where
  "disconnect m websocket =
     (if websocket \<in> set (active_connections m)
      then m\<lparr>active_connections := remove1 websocket (active_connections m)\<rparr>
      else m)"

text \<open>
  What awaiting \<^verbatim>\<open>connection.send_text(message)\<close> in \<^verbatim>\<open>broadcast\<close> comes to:
  it returns; or it raises an exception of the class \<^verbatim>\<open>Exception\<close>, which the
  handler \<^verbatim>\<open>except Exception\<close> catches; or it raises one outside that class
  (\<^verbatim>\<open>asyncio.CancelledError\<close>, \<^verbatim>\<open>KeyboardInterrupt\<close>), which the handler lets
  through to the caller of \<^verbatim>\<open>broadcast\<close>.
\<close>

datatype send_result = Sent | Raised_Exception | Raised_BaseException

datatype uncaught = Uncaught_BaseException

text \<open>
  The first loop of \<^verbatim>\<open>broadcast\<close>: one \<^verbatim>\<open>send_text\<close> per connection, the ones
  whose exception is caught collected in \<open>disconnected\<close>. An exception that is not
  caught ends the loop and the call. The second loop disconnects the collected ones in
  order; it is reached only when the first loop ran to its end.
\<close>

fun broadcast_send ::
  "('c \<Rightarrow> string \<Rightarrow> send_result) \<Rightarrow> string \<Rightarrow> 'c list \<Rightarrow> 'c list \<Rightarrow> 'c io list
     \<Rightarrow> (uncaught + 'c list) \<times> 'c io list" where
  "broadcast_send send_text msg [] disconnected sent = (Inr disconnected, sent)"
| "broadcast_send send_text msg (connection # rest) disconnected sent =
     (case send_text connection msg of
        Sent \<Rightarrow>
          broadcast_send send_text msg rest disconnected (sent @ [Send_text connection msg])
      | Raised_Exception \<Rightarrow>
          broadcast_send send_text msg rest (disconnected @ [connection])
            (sent @ [Send_text connection msg])
      | Raised_BaseException \<Rightarrow>
          (Inl Uncaught_BaseException, sent @ [Send_text connection msg]))"

fun broadcast_remove :: "'c ConnectionManager \<Rightarrow> 'c list \<Rightarrow> 'c ConnectionManager" where
  "broadcast_remove m [] = m"
| "broadcast_remove m (connection # rest) = broadcast_remove (disconnect m connection) rest"

text \<open>
  The result of \<^verbatim>\<open>broadcast\<close>: whether it returned or let an exception through,
  the manager afterwards, and the sends attempted.
\<close>

definition broadcast ::
  "('c \<Rightarrow> string \<Rightarrow> send_result) \<Rightarrow> 'c ConnectionManager \<Rightarrow> string
     \<Rightarrow> (uncaught + unit) \<times> 'c ConnectionManager \<times> 'c io list" where
  "broadcast send_text m msg =
     (if active_connections m = [] then (Inr (), m, [])
      else
        (case broadcast_send send_text msg (active_connections m) [] [] of
           (Inl e, sent) \<Rightarrow> (Inl e, m, sent)
         | (Inr disconnected, sent) \<Rightarrow> (Inr (), broadcast_remove m disconnected, sent)))"

subsection \<open>The WebSocket endpoint\<close>

text \<open>
  What \<^verbatim>\<open>receive_text()\<close> gives, one entry per call: a text, the client's
  disconnect, or any other exception. When the entries are used up the endpoint is
  waiting in \<^verbatim>\<open>receive_text\<close>. \<open>clock k\<close> is the \<open>k\<close>-th reading of
  \<^verbatim>\<open>datetime.now().isoformat()\<close> in this endpoint.
\<close>

datatype ws_event = Receive_text string | WebSocketDisconnect | Receive_exception

definition status_message :: "bool \<Rightarrow> int \<Rightarrow> string \<Rightarrow> py_dict" where
  "status_message running n now =
     [(''event'', JStr ''status_update''),
      (''is_running'', JBool running),
      (''total_detections_today'', JInt n),
      (''timestamp'', JStr now)]"

definition pong_message :: "string \<Rightarrow> py_dict" where
  "pong_message now = [(''event'', JStr ''pong''), (''timestamp'', JStr now)]"

text \<open>
  The \<^verbatim>\<open>while True\<close> of the endpoint. The result says whether an exception
  handler was reached (both handlers disconnect), and what was sent.
\<close>

fun receive_loop ::
  "('c io \<Rightarrow> bool) \<Rightarrow> (nat \<Rightarrow> string) \<Rightarrow> 'c \<Rightarrow> ws_event list \<Rightarrow> nat \<Rightarrow> 'c io list
     \<Rightarrow> bool \<times> 'c io list" where
  "receive_loop raises clock websocket [] k sent = (False, sent)"
| "receive_loop raises clock websocket (WebSocketDisconnect # rest) k sent = (True, sent)"
| "receive_loop raises clock websocket (Receive_exception # rest) k sent = (True, sent)"
| "receive_loop raises clock websocket (Receive_text data # rest) k sent =
     (if data = ''ping'' then
        (let pong = Send_json websocket (pong_message (clock k))
         in if raises pong then (True, sent @ [pong])
            else receive_loop raises clock websocket rest (Suc k) (sent @ [pong]))
      else receive_loop raises clock websocket rest k sent)"

record ('c, 's) endpoint_result =
  manager_after :: "'c ConnectionManager"
  socket_io :: "'c io list"
  tracker_after :: "'s option"
  tracker_calls :: "call list"

definition websocket_endpoint ::
  "('s, 'f) tracker_ops \<Rightarrow> ('c io \<Rightarrow> bool) \<Rightarrow> (nat \<Rightarrow> string) \<Rightarrow> 'c ConnectionManager
     \<Rightarrow> 's option \<Rightarrow> 'c \<Rightarrow> ws_event list \<Rightarrow> ('c, 's) endpoint_result" where
  "websocket_endpoint ops raises clock m tracker websocket events =
     (let (m1, io0) = connect m websocket in
      case tracker of
        None \<Rightarrow>
          (let (handled, io1) = receive_loop raises clock websocket events 0 io0
           in \<lparr>manager_after = (if handled then disconnect m1 websocket else m1),
               socket_io = io1, tracker_after = None, tracker_calls = []\<rparr>)
      | Some t \<Rightarrow>
          (let (running, w1) = tracker_is_camera_running ops (t, []);
               (n, w2) = tracker_get_today_detection_count ops w1;
               initial = Send_json websocket (status_message running n (clock 0))
           in if raises initial
              then \<lparr>manager_after = disconnect m1 websocket, socket_io = io0 @ [initial],
                    tracker_after = Some (fst w2), tracker_calls = snd w2\<rparr>
              else
                (let (handled, io1) =
                       receive_loop raises clock websocket events 1 (io0 @ [initial])
                 in \<lparr>manager_after = (if handled then disconnect m1 websocket else m1),
                     socket_io = io1, tracker_after = Some (fst w2),
                     tracker_calls = snd w2\<rparr>)))"

subsection \<open>The video stream\<close>

text \<open>
  An image is a frame of the tracker or one of the black 480 by 640 images the
  generator draws a text on (\<^verbatim>\<open>np.zeros\<close>, then \<^verbatim>\<open>cv2.putText\<close> with the text, its
  origin and its colour). \<^verbatim>\<open>cv2.imencode\<close> is a parameter: it gives a success flag and
  the bytes. A yielded part is the multipart boundary, the header, the bytes and CR LF.
\<close>

datatype 'f image =
    Tracker_frame 'f
  | Text_frame string "nat \<times> nat" "nat \<times> nat \<times> nat"

definition no_camera_feed_frame :: "'f image" where
  "no_camera_feed_frame = Text_frame ''No camera feed'' (200, 240) (0, 0, 255)"

definition camera_stopped_frame :: "'f image" where
  "camera_stopped_frame = Text_frame ''Camera Stopped'' (180, 240) (0, 255, 255)"

definition stream_error_frame :: "'f image" where
  "stream_error_frame = Text_frame ''Stream Error'' (200, 240) (0, 0, 255)"

definition crlf :: string where
  "crlf = [CHR 0x0D, CHR 0x0A]"

definition multipart :: "string \<Rightarrow> string" where
  "multipart frame_bytes =
     ''--frame'' @ crlf @ ''Content-Type: image/jpeg'' @ crlf @ crlf @ frame_bytes @ crlf"

definition yield_encoded :: "('f image \<Rightarrow> bool \<times> string) \<Rightarrow> 'f image \<Rightarrow> string list" where
  "yield_encoded imencode img =
     (let (ret, buffer) = imencode img in if ret then [multipart buffer] else [])"

text \<open>One pass through the body of \<^verbatim>\<open>while True\<close>: the parts it yields (none or one).\<close>

definition frame_iteration ::
  "('s, 'f) tracker_ops \<Rightarrow> ('f image \<Rightarrow> bool \<times> string) \<Rightarrow> 's \<times> call list
     \<Rightarrow> string list \<times> 's \<times> call list" where
  "frame_iteration ops imencode w =
     (let (running, w1) = tracker_is_camera_running ops w in
      if running then
        (let (frame, w2) = tracker_get_latest_frame ops w1 in
         case frame of
           Some f \<Rightarrow> (yield_encoded imencode (Tracker_frame f), w2)
         | None \<Rightarrow> (yield_encoded imencode no_camera_feed_frame, w2))
      else (yield_encoded imencode camera_stopped_frame, w1))"

text \<open>
  The first \<open>n\<close> passes of the generator. Between two passes it sleeps, and the capture
  thread goes on: \<open>during_sleep\<close> is what that does to the tracker. With the global
  \<^verbatim>\<open>tracker\<close> at \<^verbatim>\<open>None\<close> the first pass raises AttributeError, the handler yields
  the stream-error image and the generator is over (the flag in the result).
\<close>

fun frame_passes ::
  "('s, 'f) tracker_ops \<Rightarrow> ('f image \<Rightarrow> bool \<times> string) \<Rightarrow> ('s \<Rightarrow> 's) \<Rightarrow> nat \<Rightarrow> 's \<times> call list
     \<Rightarrow> string list \<times> 's \<times> call list" where
  "frame_passes ops imencode during_sleep 0 w = ([], w)"
| "frame_passes ops imencode during_sleep (Suc n) w =
     (let (parts, w1) = frame_iteration ops imencode w;
          (more_parts, w2) =
            frame_passes ops imencode during_sleep n (during_sleep (fst w1), snd w1)
      in (parts @ more_parts, w2))"

fun generate_frames ::
  "('s, 'f) tracker_ops \<Rightarrow> ('f image \<Rightarrow> bool \<times> string) \<Rightarrow> ('s \<Rightarrow> 's) \<Rightarrow> 's option \<Rightarrow> nat
     \<Rightarrow> (string list \<times> bool, 's) outcome" where
  "generate_frames ops imencode during_sleep None 0 = (([], False), None, [])"
| "generate_frames ops imencode during_sleep None (Suc n) =
     ((yield_encoded imencode stream_error_frame, True), None, [])"
| "generate_frames ops imencode during_sleep (Some t) n =
     (let (parts, w) = frame_passes ops imencode during_sleep n (t, [])
      in finish (parts, False) w)"

subsection \<open>An engine to run the routes on\<close>

text \<open>
  Modelled from the spec: the public operations of the Engine Core (section 4.4), the
  class \<^verbatim>\<open>DroneTracker\<close> of the module \<^verbatim>\<open>tracker\<close>, which main.py imports and whose
  code it does not hold. The status is the running flag and today's count; \<open>start\<close>
  fails when the engine runs already or the Frame Source cannot be opened, and otherwise
  sets the flag; \<open>stop\<close> clears it; the three readers are the spec's non-blocking
  reads and change nothing. It is the concrete tracker of the examples below, and the
  tracker on which the status route is shown to leave the state as it was.
\<close>

record engine =
  engine_running :: bool
  engine_count :: int
  source_opens :: bool
  engine_frame :: "nat option"

definition engine_ops :: "(engine, nat) tracker_ops" where
  "engine_ops =
     \<lparr>is_camera_running = (\<lambda>e. (engine_running e, e)),
      get_today_detection_count = (\<lambda>e. (engine_count e, e)),
      start = (\<lambda>e. if engine_running e \<or> \<not> source_opens e then (False, e)
                     else (True, e\<lparr>engine_running := True\<rparr>)),
      stop = (\<lambda>e. (True, e\<lparr>engine_running := False, engine_frame := None\<rparr>)),
      get_latest_frame = (\<lambda>e. (engine_frame e, e))\<rparr>"

definition engine_on :: engine where
  "engine_on = \<lparr>engine_running = True, engine_count = 4, source_opens = True,
                 engine_frame = Some 7\<rparr>"

definition engine_off :: engine where
  "engine_off = \<lparr>engine_running = False, engine_count = 4, source_opens = True,
                  engine_frame = None\<rparr>"

text \<open>
  For the examples: sockets whose sends never raise, a clock that stands still, and an
  encoder that succeeds on every image with the same bytes.
\<close>

definition never_raises :: "nat io \<Rightarrow> bool" where
  "never_raises a = False"

definition still_clock :: "nat \<Rightarrow> string" where
  "still_clock k = ''2025-01-01T12:00:00''"

definition encoder_ok :: "nat image \<Rightarrow> bool \<times> string" where
  "encoder_ok img = (True, ''JPEG'')"

text \<open>
  For the examples: the sends to connection 2 raise an exception that is caught, the
  sends to connection 5 one that is not, and every other send returns.
\<close>

definition example_send :: "nat \<Rightarrow> string \<Rightarrow> send_result" where
  "example_send c msg =
     (if c = 2 then Raised_Exception else if c = 5 then Raised_BaseException else Sent)"

section \<open>The Track Manager\<close>

text \<open>
  Modelled from the spec: the Track Manager (sections 3 and 4.3), part of the module
  \<^verbatim>\<open>tracker\<close> that main.py imports and whose code it does not hold. A timestamp is
  an integer, a coordinate a rational. The spec leaves open how overlap is measured
  and how identifiers are chosen: the overlap measure, its minimum and the grace
  threshold are the configuration, and identifiers are counted up from \<open>next_id\<close>.
\<close>

record box =
  x_min :: rat
  y_min :: rat
  x_max :: rat
  y_max :: rat

record candidate =
  cand_box :: box
  confidence :: rat

record track =
  track_id :: nat
  start_ts :: int
  last_seen :: int
  last_box :: box
  miss_counter :: nat

record detection_record =
  start_time :: int
  end_time :: int

record config =
  overlap :: "box \<Rightarrow> box \<Rightarrow> rat"
  min_overlap :: rat
  grace :: nat

record manager =
  live :: "track list"
  next_id :: nat

definition empty_manager :: manager where
  "empty_manager = \<lparr>live = [], next_id = 0\<rparr>"

text \<open>
  Modelled from the spec: what the capture loop hands over per cycle, a frame's
  timestamp with its candidates, or a capture gap, which counts as a frame with no
  candidates (section 4.3, edge cases).
\<close>

datatype frame_input = Frame int "candidate list" | Capture_gap

text \<open>
  Modelled from the spec: step 1, association. The candidate with the highest overlap
  among those exceeding the minimum (of equals, the earlier in the list), for each
  track in turn, most recently seen first; a matched candidate is taken out.
\<close>

fun best_candidate :: "config \<Rightarrow> box \<Rightarrow> candidate list \<Rightarrow> candidate option" where
  "best_candidate cfg b [] = None"
| "best_candidate cfg b (c # cs) =
     (if min_overlap cfg < overlap cfg b (cand_box c) then
        (case best_candidate cfg b cs of
           None \<Rightarrow> Some c
         | Some c' \<Rightarrow>
             if overlap cfg b (cand_box c) < overlap cfg b (cand_box c') then Some c'
             else Some c)
      else best_candidate cfg b cs)"

definition most_recent_first :: "track list \<Rightarrow> track list" where
  "most_recent_first tracks = sort_key (\<lambda>t. - last_seen t) tracks"

fun associate ::
  "config \<Rightarrow> track list \<Rightarrow> candidate list \<Rightarrow> (track \<times> candidate option) list \<times> candidate list" where
  "associate cfg [] cs = ([], cs)"
| "associate cfg (t # ts) cs =
     (case best_candidate cfg (last_box t) cs of
        None \<Rightarrow> (let (matches, unmatched) = associate cfg ts cs
                 in ((t, None) # matches, unmatched))
      | Some c \<Rightarrow> (let (matches, unmatched) = associate cfg ts (remove1 c cs)
                   in ((t, Some c) # matches, unmatched)))"

text \<open>
  Modelled from the spec: steps 2 and 3, first half. A matched track takes the frame's
  timestamp and the candidate's box and its miss counter goes back to zero; an
  unmatched one has its miss counter incremented.
\<close>

fun age :: "int \<Rightarrow> track \<times> candidate option \<Rightarrow> track" where
  "age ts (t, Some c) = t\<lparr>last_seen := ts, last_box := cand_box c, miss_counter := 0\<rparr>"
| "age ts (t, None) = t\<lparr>miss_counter := miss_counter t + 1\<rparr>"

definition aged_tracks :: "config \<Rightarrow> track list \<Rightarrow> int \<Rightarrow> candidate list \<Rightarrow> track list" where
  "aged_tracks cfg tracks ts cs =
     map (age ts) (fst (associate cfg (most_recent_first tracks) cs))"

definition unmatched_candidates :: "config \<Rightarrow> track list \<Rightarrow> candidate list \<Rightarrow> candidate list" where
  "unmatched_candidates cfg tracks cs = snd (associate cfg (most_recent_first tracks) cs)"

text \<open>Modelled from the spec: step 4, a new track for every unmatched candidate.\<close>

fun spawn :: "int \<Rightarrow> nat \<Rightarrow> candidate list \<Rightarrow> track list" where
  "spawn ts k [] = []"
| "spawn ts k (c # cs) =
     \<lparr>track_id = k, start_ts = ts, last_seen = ts, last_box = cand_box c, miss_counter = 0\<rparr>
       # spawn ts (Suc k) cs"

text \<open>
  Modelled from the spec: one frame through the Track Manager. The tracks whose miss
  counter now exceeds the grace threshold leave the live set and are returned as
  terminated; each gives one Detection record, from its start to its last sighting.
\<close>

definition update_tracks ::
  "config \<Rightarrow> manager \<Rightarrow> int \<Rightarrow> candidate list \<Rightarrow> manager \<times> track list" where
  "update_tracks cfg m ts cs =
     (let aged = aged_tracks cfg (live m) ts cs;
          unmatched = unmatched_candidates cfg (live m) cs;
          terminated = filter (\<lambda>t. grace cfg < miss_counter t) aged;
          survivors = filter (\<lambda>t. \<not> grace cfg < miss_counter t) aged
      in (\<lparr>live = survivors @ spawn ts (next_id m) unmatched,
           next_id = next_id m + length unmatched\<rparr>, terminated))"

text \<open>
  A capture gap has no candidates; nothing is matched or spawned in it, so the
  timestamp given for it is never used.
\<close>

fun frame_candidates :: "frame_input \<Rightarrow> candidate list" where
  "frame_candidates (Frame ts cs) = cs"
| "frame_candidates Capture_gap = []"

fun frame_timestamp :: "frame_input \<Rightarrow> int" where
  "frame_timestamp (Frame ts cs) = ts"
| "frame_timestamp Capture_gap = 0"

definition process_frame :: "config \<Rightarrow> manager \<Rightarrow> frame_input \<Rightarrow> manager \<times> track list" where
  "process_frame cfg m f = update_tracks cfg m (frame_timestamp f) (frame_candidates f)"

definition detection_of :: "track \<Rightarrow> detection_record" where
  "detection_of t = \<lparr>start_time = start_ts t, end_time = last_seen t\<rparr>"

definition emitted_records :: "config \<Rightarrow> manager \<Rightarrow> frame_input \<Rightarrow> detection_record list" where
  "emitted_records cfg m f = map detection_of (snd (process_frame cfg m f))"

text \<open>A sequence of frames: the manager after it and the tracks terminated on the way.\<close>

fun run_frames :: "config \<Rightarrow> manager \<Rightarrow> frame_input list \<Rightarrow> manager \<times> track list" where
  "run_frames cfg m [] = (m, [])"
| "run_frames cfg m (f # fs) =
     (let (m1, out1) = process_frame cfg m f;
          (m2, out2) = run_frames cfg m1 fs
      in (m2, out1 @ out2))"

text \<open>
  What holds of the manager between frames: identifiers are distinct and below
  \<open>next_id\<close>, and no live track has more misses than the grace threshold.
\<close>

definition well_formed :: "config \<Rightarrow> manager \<Rightarrow> bool" where
  "well_formed cfg m \<longleftrightarrow>
     distinct (map track_id (live m))
     \<and> list_all (\<lambda>t. track_id t < next_id m \<and> miss_counter t \<le> grace cfg) (live m)"

text \<open>
  Modelled from the spec: intersection over union, the overlap measure the spec gives
  as its example, and the configuration of its scenarios (grace threshold 5).
\<close>

definition box_area :: "box \<Rightarrow> rat" where
  "box_area b = (x_max b - x_min b) * (y_max b - y_min b)"

definition intersection_area :: "box \<Rightarrow> box \<Rightarrow> rat" where
  "intersection_area a b =
     max 0 (min (x_max a) (x_max b) - max (x_min a) (x_min b))
       * max 0 (min (y_max a) (y_max b) - max (y_min a) (y_min b))"

definition iou :: "box \<Rightarrow> box \<Rightarrow> rat" where
  "iou a b =
     (let i = intersection_area a b; u = box_area a + box_area b - i
      in if u = 0 then 0 else i / u)"

definition scenario_config :: config where
  "scenario_config = \<lparr>overlap = iou, min_overlap = 3 / 10, grace = 5\<rparr>"

definition sighting :: candidate where
  "sighting = \<lparr>cand_box = \<lparr>x_min = 10, y_min = 10, x_max = 50, y_max = 40\<rparr>,
               confidence = 9 / 10\<rparr>"

definition sighting_moved :: candidate where
  "sighting_moved = \<lparr>cand_box = \<lparr>x_min = 12, y_min = 11, x_max = 52, y_max = 41\<rparr>,
                     confidence = 8 / 10\<rparr>"


text \<open>
  The scenario of section 8: three frames with one box at about the same place, then
  frames without candidates. \<open>scenario_track n\<close> is its one track after \<open>n\<close> of them.
\<close>

definition scenario_frames :: "frame_input list" where
  "scenario_frames =
     [Frame 1 [sighting], Frame 2 [sighting_moved], Frame 3 [sighting],
      Capture_gap, Capture_gap, Capture_gap, Capture_gap, Capture_gap]"

definition scenario_track :: "nat \<Rightarrow> track" where
  "scenario_track n =
     \<lparr>track_id = 0, start_ts = 1, last_seen = 3, last_box = cand_box sighting,
      miss_counter = n\<rparr>"

section \<open>Properties\<close>

lemmas call_defs = tracker_is_camera_running_def tracker_get_today_detection_count_def
  tracker_start_def tracker_stop_def tracker_get_latest_frame_def invoke_def finish_def

lemma lower_examples:
  "lower ''START'' = ''start''" "lower ''Stop'' = ''stop''" "lower ''start'' = ''start''"
  "lower ''stop'' = ''stop''" "lower ''status'' = ''status''"
  by code_simp+

text \<open>
  C1. \<^verbatim>\<open>start\<close> on a running camera: the route returns the status "already running"
  with \<open>is_running = True\<close> and the count the tracker reports, and the only tracker
  methods it calls are the two readers; \<open>start\<close> is not among them.
\<close>

theorem camera_control_start_when_running:
  assumes "lower action = ''start''"
    and "is_camera_running ops t = (True, t1)"
    and "get_today_detection_count ops t1 = (n, t2)"
  shows "camera_control ops (Some t) action =
           (Inr \<lparr>is_running = True, message = ''Camera is already running'',
                 total_detections_today = n\<rparr>,
            Some t2, [Call_is_camera_running, Call_get_today_detection_count])
         \<and> Call_start \<notin> set (snd (snd (camera_control ops (Some t) action)))"
  using assms by (simp add: call_defs)

theorem camera_control_start_when_running_witness:
  "lower ''START'' = ''start''
   \<and> is_camera_running engine_ops engine_on = (True, engine_on)
   \<and> get_today_detection_count engine_ops engine_on = (4, engine_on)
   \<and> camera_control engine_ops (Some engine_on) ''START'' =
       (Inr \<lparr>is_running = True, message = ''Camera is already running'',
             total_detections_today = 4\<rparr>,
        Some engine_on, [Call_is_camera_running, Call_get_today_detection_count])"
proof -
  have h1: "lower ''START'' = ''start''"
    by (rule lower_examples)
  have h2: "is_camera_running engine_ops engine_on = (True, engine_on)"
    by (simp add: engine_ops_def engine_on_def)
  have h3: "get_today_detection_count engine_ops engine_on = (4, engine_on)"
    by (simp add: engine_ops_def engine_on_def)
  from camera_control_start_when_running [OF h1 h2 h3] h1 h2 h3 show ?thesis
    by simp
qed

text \<open>
  C2. \<^verbatim>\<open>stop\<close> on a camera that is not running: the route returns the status
  "already stopped" with \<open>is_running = False\<close> and the count the tracker reports, and
  the only tracker methods it calls are the two readers; \<open>stop\<close> is not among them.
\<close>

theorem camera_control_stop_when_stopped:
  assumes "lower action = ''stop''"
    and "is_camera_running ops t = (False, t1)"
    and "get_today_detection_count ops t1 = (n, t2)"
  shows "camera_control ops (Some t) action =
           (Inr \<lparr>is_running = False, message = ''Camera is already stopped'',
                 total_detections_today = n\<rparr>,
            Some t2, [Call_is_camera_running, Call_get_today_detection_count])
         \<and> Call_stop \<notin> set (snd (snd (camera_control ops (Some t) action)))"
proof -
  have "lower action \<noteq> ''start''"
    using assms(1) by simp
  with assms show ?thesis
    by (simp add: call_defs)
qed

theorem camera_control_stop_when_stopped_witness:
  "lower ''Stop'' = ''stop''
   \<and> is_camera_running engine_ops engine_off = (False, engine_off)
   \<and> get_today_detection_count engine_ops engine_off = (4, engine_off)
   \<and> camera_control engine_ops (Some engine_off) ''Stop'' =
       (Inr \<lparr>is_running = False, message = ''Camera is already stopped'',
             total_detections_today = 4\<rparr>,
        Some engine_off, [Call_is_camera_running, Call_get_today_detection_count])"
proof -
  have h1: "lower ''Stop'' = ''stop''"
    by (rule lower_examples)
  have h2: "is_camera_running engine_ops engine_off = (False, engine_off)"
    by (simp add: engine_ops_def engine_off_def)
  have h3: "get_today_detection_count engine_ops engine_off = (4, engine_off)"
    by (simp add: engine_ops_def engine_off_def)
  from camera_control_stop_when_stopped [OF h1 h2 h3] h1 h2 h3 show ?thesis
    by simp
qed

text \<open>
  C3. \<^verbatim>\<open>start\<close> on a camera that is not running: the route calls the tracker's
  \<open>start\<close> once, and its boolean decides the outcome within the same call. On
  \<open>True\<close> the route returns the status "started" with \<open>is_running = True\<close>; on
  \<open>False\<close> it raises the HTTP error 500 and returns no status.
\<close>

theorem camera_control_start_outcome:
  assumes "lower action = ''start''"
    and "is_camera_running ops t = (False, t1)"
    and "start ops t1 = (success, t2)"
    and "get_today_detection_count ops t2 = (n, t3)"
  shows "camera_control ops (Some t) action =
           (if success
            then (Inr \<lparr>is_running = True, message = ''Camera started successfully'',
                       total_detections_today = n\<rparr>,
                  Some t3, [Call_is_camera_running, Call_start, Call_get_today_detection_count])
            else (Inl (HTTPException 500 ''Failed to start camera''),
                  Some t2, [Call_is_camera_running, Call_start]))"
  using assms by (simp add: call_defs)

text \<open>Both outcomes on the example engine: the Frame Source opens, or it does not.\<close>

theorem camera_control_start_outcome_witness:
  "camera_control engine_ops (Some engine_off) ''start'' =
     (Inr \<lparr>is_running = True, message = ''Camera started successfully'',
           total_detections_today = 4\<rparr>,
      Some (engine_off\<lparr>engine_running := True\<rparr>),
      [Call_is_camera_running, Call_start, Call_get_today_detection_count])
   \<and> camera_control engine_ops (Some (engine_off\<lparr>source_opens := False\<rparr>)) ''start'' =
     (Inl (HTTPException 500 ''Failed to start camera''),
      Some (engine_off\<lparr>source_opens := False\<rparr>), [Call_is_camera_running, Call_start])"
proof -
  have h1: "lower ''start'' = ''start''"
    by (rule lower_examples)
  have a2: "is_camera_running engine_ops engine_off = (False, engine_off)"
    by (simp add: engine_ops_def engine_off_def)
  have a3: "start engine_ops engine_off = (True, engine_off\<lparr>engine_running := True\<rparr>)"
    by (simp add: engine_ops_def engine_off_def)
  have a4: "get_today_detection_count engine_ops (engine_off\<lparr>engine_running := True\<rparr>) =
              (4, engine_off\<lparr>engine_running := True\<rparr>)"
    by (simp add: engine_ops_def engine_off_def)
  have b2: "is_camera_running engine_ops (engine_off\<lparr>source_opens := False\<rparr>) =
              (False, engine_off\<lparr>source_opens := False\<rparr>)"
    by (simp add: engine_ops_def engine_off_def)
  have b3: "start engine_ops (engine_off\<lparr>source_opens := False\<rparr>) =
              (False, engine_off\<lparr>source_opens := False\<rparr>)"
    by (simp add: engine_ops_def engine_off_def)
  have b4: "get_today_detection_count engine_ops (engine_off\<lparr>source_opens := False\<rparr>) =
              (4, engine_off\<lparr>source_opens := False\<rparr>)"
    by (simp add: engine_ops_def engine_off_def)
  from camera_control_start_outcome [OF h1 a2 a3 a4]
       camera_control_start_outcome [OF h1 b2 b3 b4]
  show ?thesis by simp
qed

text \<open>
  C4. With the tracker initialised, an action whose lowercase form is neither
  \<open>start\<close> nor \<open>stop\<close> is refused by the route itself with the HTTP error 400: no
  tracker method is called and the tracker is as it was.
\<close>

theorem camera_control_invalid_action:
  assumes "lower action \<noteq> ''start''" and "lower action \<noteq> ''stop''"
  shows "camera_control ops (Some t) action =
           (Inl (HTTPException 400 invalid_action_detail), Some t, [])"
  using assms by (simp add: call_defs)

theorem camera_control_invalid_action_witness:
  "lower ''status'' \<noteq> ''start'' \<and> lower ''status'' \<noteq> ''stop''
   \<and> camera_control engine_ops (Some engine_on) ''status'' =
       (Inl (HTTPException 400 invalid_action_detail), Some engine_on, [])"
proof -
  have h1: "lower ''status'' \<noteq> ''start''"
    by (simp add: lower_examples)
  have h2: "lower ''status'' \<noteq> ''stop''"
    by (simp add: lower_examples)
  from camera_control_invalid_action [OF h1 h2, of engine_ops engine_on] h1 h2
  show ?thesis by simp
qed

text \<open>
  C8. The status route itself writes nothing: whatever the tracker, it calls the two
  readers, once each and in this order, and nothing else; the tracker afterwards is
  what the readers left, and the status carries what they returned. On the engine of
  the spec, whose readers only read, this means for every state of the engine: the
  state after the call is the state before it, and the status carries its running flag
  and its today's count. With no tracker there is nothing to call and nothing changes.
\<close>

theorem camera_status_reads_only:
  "camera_status ops (Some t) =
     (\<lparr>is_running = fst (is_camera_running ops t), message = ''Camera status retrieved'',
        total_detections_today =
          fst (get_today_detection_count ops (snd (is_camera_running ops t)))\<rparr>,
      Some (snd (get_today_detection_count ops (snd (is_camera_running ops t)))),
      [Call_is_camera_running, Call_get_today_detection_count])
   \<and> camera_status engine_ops (Some e) =
     (\<lparr>is_running = engine_running e, message = ''Camera status retrieved'',
        total_detections_today = engine_count e\<rparr>,
      Some e, [Call_is_camera_running, Call_get_today_detection_count])
   \<and> snd (camera_status ops None) = (None, [])"
proof (intro conjI)
  show "camera_status ops (Some t) =
     (\<lparr>is_running = fst (is_camera_running ops t), message = ''Camera status retrieved'',
        total_detections_today =
          fst (get_today_detection_count ops (snd (is_camera_running ops t)))\<rparr>,
      Some (snd (get_today_detection_count ops (snd (is_camera_running ops t)))),
      [Call_is_camera_running, Call_get_today_detection_count])"
    by (simp add: call_defs case_prod_unfold)
  then show "camera_status engine_ops (Some e) =
     (\<lparr>is_running = engine_running e, message = ''Camera status retrieved'',
        total_detections_today = engine_count e\<rparr>,
      Some e, [Call_is_camera_running, Call_get_today_detection_count])"
    by (simp add: call_defs case_prod_unfold engine_ops_def)
  show "snd (camera_status ops None) = (None, [])"
    by simp
qed

theorem camera_status_reads_only_witness:
  "camera_status engine_ops (Some engine_on) =
     (\<lparr>is_running = True, message = ''Camera status retrieved'',
        total_detections_today = 4\<rparr>,
      Some engine_on, [Call_is_camera_running, Call_get_today_detection_count])
   \<and> camera_status engine_ops (Some engine_off) =
     (\<lparr>is_running = False, message = ''Camera status retrieved'',
        total_detections_today = 4\<rparr>,
      Some engine_off, [Call_is_camera_running, Call_get_today_detection_count])"
proof -
  from camera_status_reads_only [of engine_ops engine_on engine_on]
  have on: "camera_status engine_ops (Some engine_on) =
     (\<lparr>is_running = engine_running engine_on, message = ''Camera status retrieved'',
        total_detections_today = engine_count engine_on\<rparr>,
      Some engine_on, [Call_is_camera_running, Call_get_today_detection_count])"
    by (elim conjE)
  from camera_status_reads_only [of engine_ops engine_off engine_off]
  have off: "camera_status engine_ops (Some engine_off) =
     (\<lparr>is_running = engine_running engine_off, message = ''Camera status retrieved'',
        total_detections_today = engine_count engine_off\<rparr>,
      Some engine_off, [Call_is_camera_running, Call_get_today_detection_count])"
    by (elim conjE)
  from on off show ?thesis
    by (simp add: engine_on_def engine_off_def)
qed

text \<open>
  C9. With the global tracker at \<^verbatim>\<open>None\<close> both read-only routes return a value:
  the status route the status "not running, no detections, tracker not initialized",
  the health check \<open>healthy\<close> with \<open>tracker_initialized\<close> and \<open>camera_running\<close>
  false. Neither has a branch that raises, and neither calls the tracker.
\<close>

theorem status_routes_without_tracker:
  "camera_status ops None =
     (\<lparr>is_running = False, message = ''Tracker not initialized'',
        total_detections_today = 0\<rparr>, None, [])
   \<and> health_check ops now None =
     ([(''status'', JStr ''healthy''), (''tracker_initialized'', JBool False),
       (''camera_running'', JBool False), (''timestamp'', JStr now)], None, [])"
  by simp

subsection \<open>The connection manager\<close>

lemma broadcast_send_caught:
  "\<forall>c \<in> set cs. send_text c msg \<noteq> Raised_BaseException \<Longrightarrow>
     broadcast_send send_text msg cs disconnected sent =
       (Inr (disconnected @ filter (\<lambda>c. send_text c msg = Raised_Exception) cs),
        sent @ map (\<lambda>c. Send_text c msg) cs)"
proof (induction cs arbitrary: disconnected sent)
  case Nil
  show ?case by simp
next
  case (Cons c cs)
  from Cons.prems have rest: "\<forall>c \<in> set cs. send_text c msg \<noteq> Raised_BaseException"
    and here: "send_text c msg \<noteq> Raised_BaseException"
    by simp_all
  show ?case
  proof (cases "send_text c msg")
    case Sent
    with Cons.IH [OF rest] show ?thesis by simp
  next
    case Raised_Exception
    with Cons.IH [OF rest] show ?thesis by simp
  next
    case Raised_BaseException
    with here show ?thesis by simp
  qed
qed

lemma broadcast_send_uncaught:
  "\<forall>b \<in> set before. send_text b msg \<noteq> Raised_BaseException \<Longrightarrow>
   send_text c msg = Raised_BaseException \<Longrightarrow>
     broadcast_send send_text msg (before @ c # rest) disconnected sent =
       (Inl Uncaught_BaseException, sent @ map (\<lambda>c. Send_text c msg) (before @ [c]))"
proof (induction before arbitrary: disconnected sent)
  case Nil
  then show ?case by simp
next
  case (Cons b before)
  from Cons.prems have tail: "\<forall>b \<in> set before. send_text b msg \<noteq> Raised_BaseException"
    and here: "send_text b msg \<noteq> Raised_BaseException"
    by simp_all
  show ?case
  proof (cases "send_text b msg")
    case Sent
    with Cons.IH [OF tail Cons.prems(2)] show ?thesis by simp
  next
    case Raised_Exception
    with Cons.IH [OF tail Cons.prems(2)] show ?thesis by simp
  next
    case Raised_BaseException
    with here show ?thesis by simp
  qed
qed

lemma disconnect_remove1:
  "disconnect m c = m\<lparr>active_connections := remove1 c (active_connections m)\<rparr>"
  by (simp add: disconnect_def remove1_idem)

lemma broadcast_remove_fold:
  "broadcast_remove m ds = m\<lparr>active_connections := fold remove1 ds (active_connections m)\<rparr>"
  by (induction ds arbitrary: m) (simp_all add: disconnect_remove1)

lemma fold_remove1_failed:
  "\<forall>y \<in> set ys. \<not> P y \<Longrightarrow>
     fold remove1 (filter P xs) (ys @ xs) = ys @ filter (\<lambda>c. \<not> P c) xs"
proof (induction xs arbitrary: ys)
  case Nil
  then show ?case by simp
next
  case (Cons x xs)
  show ?case
  proof (cases "P x")
    case True
    with Cons.prems have "x \<notin> set ys" by blast
    then have "remove1 x (ys @ x # xs) = ys @ xs"
      by (simp add: remove1_append)
    with True Cons.IH [OF Cons.prems] show ?thesis by simp
  next
    case False
    with Cons.prems have "\<forall>y \<in> set (ys @ [x]). \<not> P y" by simp
    from Cons.IH [OF this] False show ?thesis by simp
  qed
qed

text \<open>
  C10, with the exceptions the handler does not catch set apart. When no send of the
  call raises an exception outside the class \<^verbatim>\<open>Exception\<close>, \<^verbatim>\<open>broadcast\<close>
  returns, it has attempted the message once on every active connection, in order, and
  the active connections afterwards are exactly those whose send returned, in their old
  order. When a send raises an exception outside that class, the call ends there: the
  exception reaches the caller, the connections after it are not attempted, and the
  list of connections is as it was. With no active connection nothing is sent.
\<close>

theorem broadcast_outcome:
  "((\<forall>c \<in> set (active_connections m). send_text c msg \<noteq> Raised_BaseException) \<longrightarrow>
      broadcast send_text m msg =
        (Inr (),
         m\<lparr>active_connections := filter (\<lambda>c. send_text c msg = Sent) (active_connections m)\<rparr>,
         map (\<lambda>c. Send_text c msg) (active_connections m)))
   \<and> ((active_connections m = before @ c # rest
        \<and> (\<forall>b \<in> set before. send_text b msg \<noteq> Raised_BaseException)
        \<and> send_text c msg = Raised_BaseException) \<longrightarrow>
      broadcast send_text m msg =
        (Inl Uncaught_BaseException, m, map (\<lambda>c. Send_text c msg) (before @ [c])))
   \<and> broadcast send_text (m\<lparr>active_connections := []\<rparr>) msg =
       (Inr (), m\<lparr>active_connections := []\<rparr>, [])"
proof (intro conjI impI)
  let ?cs = "active_connections m"
  assume caught: "\<forall>c \<in> set ?cs. send_text c msg \<noteq> Raised_BaseException"
  have removed: "fold remove1 (filter (\<lambda>c. send_text c msg = Raised_Exception) ?cs) ([] @ ?cs) =
        [] @ filter (\<lambda>c. \<not> send_text c msg = Raised_Exception) ?cs"
    by (rule fold_remove1_failed) simp
  have "filter (\<lambda>c. \<not> send_text c msg = Raised_Exception) ?cs =
        filter (\<lambda>c. send_text c msg = Sent) ?cs"
  proof (rule filter_cong [OF refl])
    fix c
    assume "c \<in> set ?cs"
    with caught have "send_text c msg \<noteq> Raised_BaseException" by simp
    then show "(\<not> send_text c msg = Raised_Exception) = (send_text c msg = Sent)"
      by (cases "send_text c msg") simp_all
  qed
  with removed have "fold remove1 (filter (\<lambda>c. send_text c msg = Raised_Exception) ?cs) ?cs =
        filter (\<lambda>c. send_text c msg = Sent) ?cs"
    by simp
  then show "broadcast send_text m msg =
        (Inr (), m\<lparr>active_connections := filter (\<lambda>c. send_text c msg = Sent) ?cs\<rparr>,
         map (\<lambda>c. Send_text c msg) ?cs)"
    by (simp add: broadcast_def broadcast_remove_fold
        broadcast_send_caught [where send_text = send_text and msg = msg, OF caught])
next
  assume a: "active_connections m = before @ c # rest
        \<and> (\<forall>b \<in> set before. send_text b msg \<noteq> Raised_BaseException)
        \<and> send_text c msg = Raised_BaseException"
  then have cs: "active_connections m = before @ c # rest"
    and b: "\<forall>b \<in> set before. send_text b msg \<noteq> Raised_BaseException"
    and c: "send_text c msg = Raised_BaseException"
    by simp_all
  from broadcast_send_uncaught [where send_text = send_text and msg = msg and rest = rest
      and disconnected = "[]" and sent = "[]", OF b c]
  show "broadcast send_text m msg =
        (Inl Uncaught_BaseException, m, map (\<lambda>c. Send_text c msg) (before @ [c]))"
    by (simp add: broadcast_def cs)
next
  show "broadcast send_text (m\<lparr>active_connections := []\<rparr>) msg =
       (Inr (), m\<lparr>active_connections := []\<rparr>, [])"
    by (simp add: broadcast_def)
qed

text \<open>
  Both cases on the example sends. Connection 2 is listed twice and its sends raise a
  caught exception: both entries go. With connection 5 in the list the exception gets
  through, connection 3 is not attempted and the list stays.
\<close>

theorem broadcast_outcome_witness:
  "broadcast example_send \<lparr>active_connections = [1, 2, 3, 2]\<rparr> ''m'' =
     (Inr (), \<lparr>active_connections = [1, 3]\<rparr>,
      [Send_text 1 ''m'', Send_text 2 ''m'', Send_text 3 ''m'', Send_text 2 ''m''])
   \<and> broadcast example_send \<lparr>active_connections = [1, 5, 3]\<rparr> ''m'' =
     (Inl Uncaught_BaseException, \<lparr>active_connections = [1, 5, 3]\<rparr>,
      [Send_text 1 ''m'', Send_text 5 ''m''])"
proof -
  have h1: "\<forall>c \<in> set (active_connections \<lparr>active_connections = [1, 2, 3, 2 :: nat]\<rparr>).
              example_send c ''m'' \<noteq> Raised_BaseException"
    by (simp add: example_send_def)
  from broadcast_outcome [of "\<lparr>active_connections = [1, 2, 3, 2]\<rparr>" example_send "''m''"] h1
  have r1: "broadcast example_send \<lparr>active_connections = [1, 2, 3, 2]\<rparr> ''m'' =
     (Inr (), \<lparr>active_connections = [1, 3]\<rparr>,
      [Send_text 1 ''m'', Send_text 2 ''m'', Send_text 3 ''m'', Send_text 2 ''m''])"
    by (simp add: example_send_def)
  have h2: "active_connections \<lparr>active_connections = [1, 5, 3 :: nat]\<rparr> = [1] @ 5 # [3]
            \<and> (\<forall>b \<in> set [1 :: nat]. example_send b ''m'' \<noteq> Raised_BaseException)
            \<and> example_send 5 ''m'' = Raised_BaseException"
    by (simp add: example_send_def)
  from broadcast_outcome [of "\<lparr>active_connections = [1, 5, 3]\<rparr>" example_send "''m''"
         "[1]" 5 "[3]"] h2
  have r2: "broadcast example_send \<lparr>active_connections = [1, 5, 3]\<rparr> ''m'' =
     (Inl Uncaught_BaseException, \<lparr>active_connections = [1, 5, 3]\<rparr>,
      [Send_text 1 ''m'', Send_text 5 ''m''])"
    by simp
  from r1 r2 show ?thesis by (intro conjI)
qed

text \<open>
  C10 as written has every connection whose send raised removed and no exception of a
  subscriber reaching the caller. Here the send to connection 2 raises a caught
  exception and the send to connection 5 one that is not caught: the call ends with
  that exception, connection 3 is never attempted, and connection 2 is still listed.
\<close>

theorem broadcast_uncaught_counterexample:
  "broadcast example_send \<lparr>active_connections = [2, 5, 3]\<rparr> ''m'' =
     (Inl Uncaught_BaseException, \<lparr>active_connections = [2, 5, 3]\<rparr>,
      [Send_text 2 ''m'', Send_text 5 ''m''])
   \<and> example_send 2 ''m'' = Raised_Exception"
  by (simp add: broadcast_def example_send_def)

subsection \<open>The WebSocket endpoint\<close>

lemma endpoint_io:
  assumes "is_camera_running ops t = (r, t1)"
    and "get_today_detection_count ops t1 = (n, t2)"
  shows "socket_io (websocket_endpoint ops raises clock m (Some t) ws events) =
           (if raises (Send_json ws (status_message r n (clock 0)))
            then [Accept ws, Send_json ws (status_message r n (clock 0))]
            else snd (receive_loop raises clock ws events 1
                   [Accept ws, Send_json ws (status_message r n (clock 0))]))"
  using assms
  by (simp add: websocket_endpoint_def connect_def call_defs case_prod_unfold Let_def)

lemma receive_loop_extends:
  "\<exists>ext. snd (receive_loop raises clock ws events k sent) = sent @ ext
         \<and> (\<forall>e \<in> set ext. \<exists>now. e = Send_json ws (pong_message now))"
proof (induction raises clock ws events k sent rule: receive_loop.induct)
  case (4 raises clock websocket data rest k sent)
  let ?pong = "Send_json websocket (pong_message (clock k))"
  show ?case
  proof (cases "data = ''ping'' \<and> \<not> raises ?pong")
    case True
    then have "\<exists>ext. snd (receive_loop raises clock websocket rest (Suc k) (sent @ [?pong])) =
                  (sent @ [?pong]) @ ext
               \<and> (\<forall>e \<in> set ext. \<exists>now. e = Send_json websocket (pong_message now))"
      using 4(1) by simp
    then obtain ext where
      e1: "snd (receive_loop raises clock websocket rest (Suc k) (sent @ [?pong])) =
             (sent @ [?pong]) @ ext"
      and e2: "\<forall>e \<in> set ext. \<exists>now. e = Send_json websocket (pong_message now)"
      by (elim exE conjE)
    have "snd (receive_loop raises clock websocket (Receive_text data # rest) k sent) =
            sent @ (?pong # ext)"
      using True e1 by simp
    moreover have "\<forall>e \<in> set (?pong # ext). \<exists>now. e = Send_json websocket (pong_message now)"
      using e2 by auto
    ultimately show ?thesis by (intro exI conjI)
  next
    case False
    show ?thesis
    proof (cases "data = ''ping''")
      case True
      with False have "snd (receive_loop raises clock websocket (Receive_text data # rest) k sent) =
            sent @ [?pong]"
        by simp
      moreover have "\<forall>e \<in> set [?pong]. \<exists>now. e = Send_json websocket (pong_message now)"
        by auto
      ultimately show ?thesis by (intro exI conjI)
    next
      case False
      with 4(2) show ?thesis by simp
    qed
  qed
qed simp_all


text \<open>
  C6, with the count under the key the code gives it. With an initialised tracker,
  the first thing the endpoint does on the socket after accepting it is to send one
  dictionary: the event \<open>status_update\<close>, the tracker's running flag under
  \<open>is_running\<close>, its today's count under \<open>total_detections_today\<close>, and the
  time under \<open>timestamp\<close>. Whatever it sends later on this socket is a \<open>pong\<close>.
\<close>

theorem websocket_endpoint_initial_status:
  assumes "is_camera_running ops t = (r, t1)"
    and "get_today_detection_count ops t1 = (n, t2)"
  shows "take 2 (socket_io (websocket_endpoint ops raises clock m (Some t) ws events)) =
           [Accept ws, Send_json ws (status_message r n (clock 0))]
         \<and> status_message r n (clock 0) =
             [(''event'', JStr ''status_update''), (''is_running'', JBool r),
              (''total_detections_today'', JInt n), (''timestamp'', JStr (clock 0))]
         \<and> (\<forall>e \<in> set (drop 2 (socket_io (websocket_endpoint ops raises clock m (Some t) ws events))).
               \<exists>now. e = Send_json ws (pong_message now))"
proof -
  let ?initial = "Send_json ws (status_message r n (clock 0))"
  let ?io = "socket_io (websocket_endpoint ops raises clock m (Some t) ws events)"
  from receive_loop_extends [of raises clock ws events 1 "[Accept ws, ?initial]"]
  obtain ext where ext: "snd (receive_loop raises clock ws events 1 [Accept ws, ?initial]) =
        [Accept ws, ?initial] @ ext"
    and pongs: "\<forall>e \<in> set ext. \<exists>now. e = Send_json ws (pong_message now)"
    by (elim exE conjE)
  have "?io = [Accept ws, ?initial] @ (if raises ?initial then [] else ext)"
    using endpoint_io [OF assms, of raises clock m ws events] ext by simp
  then have "take 2 ?io = [Accept ws, ?initial]"
    and "drop 2 ?io = (if raises ?initial then [] else ext)"
    by simp_all
  moreover have "status_message r n (clock 0) =
             [(''event'', JStr ''status_update''), (''is_running'', JBool r),
              (''total_detections_today'', JInt n), (''timestamp'', JStr (clock 0))]"
    by (simp add: status_message_def)
  ultimately show ?thesis
    using pongs by simp
qed


theorem websocket_endpoint_initial_status_witness:
  "is_camera_running engine_ops engine_on = (True, engine_on)
   \<and> get_today_detection_count engine_ops engine_on = (4, engine_on)
   \<and> take 2 (socket_io (websocket_endpoint engine_ops never_raises still_clock
        \<lparr>active_connections = []\<rparr> (Some engine_on) 1 [Receive_text ''ping''])) =
       [Accept 1, Send_json 1 (status_message True 4 (still_clock 0))]"
proof -
  have h1: "is_camera_running engine_ops engine_on = (True, engine_on)"
    by (simp add: engine_ops_def engine_on_def)
  have h2: "get_today_detection_count engine_ops engine_on = (4, engine_on)"
    by (simp add: engine_ops_def engine_on_def)
  from websocket_endpoint_initial_status [OF h1 h2, of never_raises still_clock
      "\<lparr>active_connections = []\<rparr>" 1 "[Receive_text ''ping'']"]
  have "take 2 (socket_io (websocket_endpoint engine_ops never_raises still_clock
        \<lparr>active_connections = []\<rparr> (Some engine_on) 1 [Receive_text ''ping''])) =
       [Accept 1, Send_json 1 (status_message True 4 (still_clock 0))]"
    by (rule conjunct1)
  with h1 h2 show ?thesis
    by (intro conjI)
qed


text \<open>
  C6 as written names the count field \<open>today_detection_count\<close>. On the example
  engine the endpoint sends the dictionary below, and no such key is in it.
\<close>

theorem websocket_endpoint_field_counterexample:
  "socket_io (websocket_endpoint engine_ops never_raises still_clock
      \<lparr>active_connections = []\<rparr> (Some engine_on) 1 []) =
     [Accept 1, Send_json 1 (status_message True 4 (still_clock 0))]
   \<and> map fst (status_message True 4 (still_clock 0)) =
       [''event'', ''is_running'', ''total_detections_today'', ''timestamp'']
   \<and> ''today_detection_count'' \<notin> set (map fst (status_message True 4 (still_clock 0)))"
proof -
  have h1: "is_camera_running engine_ops engine_on = (True, engine_on)"
    by (simp add: engine_ops_def engine_on_def)
  have h2: "get_today_detection_count engine_ops engine_on = (4, engine_on)"
    by (simp add: engine_ops_def engine_on_def)
  have "socket_io (websocket_endpoint engine_ops never_raises still_clock
      \<lparr>active_connections = []\<rparr> (Some engine_on) 1 []) =
     [Accept 1, Send_json 1 (status_message True 4 (still_clock 0))]"
    by (simp add: endpoint_io [OF h1 h2] never_raises_def)
  moreover have keys: "map fst (status_message True 4 (still_clock 0)) =
       [''event'', ''is_running'', ''total_detections_today'', ''timestamp'']"
    by (simp add: status_message_def)
  moreover have "''today_detection_count'' \<notin> set (map fst (status_message True 4 (still_clock 0)))"
    unfolding keys by simp
  ultimately show ?thesis
    by (intro conjI)
qed

subsection \<open>The video stream\<close>

text \<open>
  C7. A pass of the generator with no frame to show, the camera running with the latest
  frame at \<^verbatim>\<open>None\<close> or the camera not running, yields exactly one part whenever
  the encoder succeeds, and the part is the boundary line, the JPEG content type, an
  empty line, the bytes the encoder made of an image the generator itself draws (black,
  with "No camera feed" in the first case and "Camera Stopped" in the second), and
  CR LF. The tracker is only asked: for its running flag, and when that is set for
  its latest frame.
\<close>

theorem frame_iteration_placeholder:
  assumes "is_camera_running ops t = (running, t1)"
    and "get_latest_frame ops t1 = (frame, t2)"
    and "\<not> running \<or> frame = None"
    and "imencode (if running then Text_frame ''No camera feed'' (200, 240) (0, 0, 255)
                   else Text_frame ''Camera Stopped'' (180, 240) (0, 255, 255)) =
           (True, buffer)"
  shows "frame_iteration ops imencode (t, calls) =
           ([''--frame'' @ [CHR 0x0D, CHR 0x0A] @ ''Content-Type: image/jpeg''
               @ [CHR 0x0D, CHR 0x0A, CHR 0x0D, CHR 0x0A] @ buffer @ [CHR 0x0D, CHR 0x0A]],
            (if running then t2 else t1),
            calls @ (if running then [Call_is_camera_running, Call_get_latest_frame]
                     else [Call_is_camera_running]))"
proof (cases running)
  case True
  with assms(3) have "frame = None" by simp
  with True assms(1,2,4) show ?thesis
    by (simp add: frame_iteration_def yield_encoded_def call_defs multipart_def crlf_def
        no_camera_feed_frame_def)
next
  case False
  with assms(1,4) show ?thesis
    by (simp add: frame_iteration_def yield_encoded_def call_defs multipart_def crlf_def
        camera_stopped_frame_def)
qed

theorem frame_iteration_placeholder_witness:
  "frame_iteration engine_ops encoder_ok (engine_on\<lparr>engine_frame := None\<rparr>, []) =
     ([''--frame'' @ [CHR 0x0D, CHR 0x0A] @ ''Content-Type: image/jpeg''
         @ [CHR 0x0D, CHR 0x0A, CHR 0x0D, CHR 0x0A] @ ''JPEG'' @ [CHR 0x0D, CHR 0x0A]],
      engine_on\<lparr>engine_frame := None\<rparr>,
      [Call_is_camera_running, Call_get_latest_frame])
   \<and> frame_iteration engine_ops encoder_ok (engine_off, []) =
     ([''--frame'' @ [CHR 0x0D, CHR 0x0A] @ ''Content-Type: image/jpeg''
         @ [CHR 0x0D, CHR 0x0A, CHR 0x0D, CHR 0x0A] @ ''JPEG'' @ [CHR 0x0D, CHR 0x0A]],
      engine_off, [Call_is_camera_running])"
proof -
  have a1: "is_camera_running engine_ops (engine_on\<lparr>engine_frame := None\<rparr>) =
              (True, engine_on\<lparr>engine_frame := None\<rparr>)"
    by (simp add: engine_ops_def engine_on_def)
  have a2: "get_latest_frame engine_ops (engine_on\<lparr>engine_frame := None\<rparr>) =
              (None, engine_on\<lparr>engine_frame := None\<rparr>)"
    by (simp add: engine_ops_def engine_on_def)
  have a3: "\<not> True \<or> (None :: nat option) = None"
    by simp
  have a4: "encoder_ok (if True then Text_frame ''No camera feed'' (200, 240) (0, 0, 255)
                        else Text_frame ''Camera Stopped'' (180, 240) (0, 255, 255)) =
              (True, ''JPEG'')"
    by (simp add: encoder_ok_def)
  have b1: "is_camera_running engine_ops engine_off = (False, engine_off)"
    by (simp add: engine_ops_def engine_off_def)
  have b2: "get_latest_frame engine_ops engine_off = (None, engine_off)"
    by (simp add: engine_ops_def engine_off_def)
  have b3: "\<not> False \<or> (None :: nat option) = None"
    by simp
  have b4: "encoder_ok (if False then Text_frame ''No camera feed'' (200, 240) (0, 0, 255)
                        else Text_frame ''Camera Stopped'' (180, 240) (0, 255, 255)) =
              (True, ''JPEG'')"
    by (simp add: encoder_ok_def)
  note run_a = frame_iteration_placeholder [where imencode = encoder_ok and running = True
      and buffer = "''JPEG''" and calls = "[]", OF a1 a2 a3 a4]
  note run_b = frame_iteration_placeholder [where imencode = encoder_ok and running = False
      and buffer = "''JPEG''" and calls = "[]", OF b1 b2 b3 b4]
  from run_a run_b show ?thesis by simp
qed

text \<open>
  Two passes of the generator on the stopped example engine: two "Camera Stopped"
  parts, the tracker asked once per pass.
\<close>

lemma generate_frames_example:
  "generate_frames engine_ops encoder_ok (\<lambda>e. e) (Some engine_off) 2 =
     (([multipart ''JPEG'', multipart ''JPEG''], False), Some engine_off,
      [Call_is_camera_running, Call_is_camera_running])"
  by (simp add: numeral_2_eq_2 frame_iteration_def yield_encoded_def call_defs
      engine_ops_def engine_off_def encoder_ok_def)

text \<open>With no tracker the first pass ends the stream with the "Stream Error" part.\<close>

lemma generate_frames_without_tracker:
  "generate_frames ops encoder_ok during_sleep None (Suc n) =
     (([multipart ''JPEG''], True), None, [])"
  by (simp add: yield_encoded_def encoder_ok_def)

section \<open>Properties of the Track Manager\<close>

lemma associate_tracks: "map fst (fst (associate cfg ts cs)) = ts"
  by (induction ts arbitrary: cs) (simp_all add: case_prod_unfold Let_def split: option.splits)

lemma age_track_id: "track_id (age ts (t, mc)) = track_id t"
  by (cases mc) simp_all

lemma age_miss_counter:
  "miss_counter (age ts (t, mc)) = (case mc of None \<Rightarrow> miss_counter t + 1 | Some c \<Rightarrow> 0)"
  by (cases mc) simp_all

lemma aged_tracks_ids:
  "map track_id (aged_tracks cfg tracks ts cs) = map track_id (most_recent_first tracks)"
proof -
  have "map track_id (map (age ts) ms) = map track_id (map fst ms)" for ms
    by (induction ms) (auto simp: age_track_id)
  then show ?thesis
    by (simp only: aged_tracks_def associate_tracks)
qed

lemma set_most_recent_first: "set (most_recent_first tracks) = set tracks"
  by (simp add: most_recent_first_def)

lemma distinct_ids_most_recent_first:
  "distinct (map track_id (most_recent_first tracks)) = distinct (map track_id tracks)"
  by (simp add: most_recent_first_def distinct_map)

lemma aged_from_live:
  assumes "t' \<in> set (aged_tracks cfg tracks ts cs)"
  shows "\<exists>t \<in> set tracks. track_id t' = track_id t
           \<and> (miss_counter t' = 0 \<or> miss_counter t' = miss_counter t + 1)"
proof -
  from assms obtain t mc where
    p: "(t, mc) \<in> set (fst (associate cfg (most_recent_first tracks) cs))"
    and t': "t' = age ts (t, mc)"
    by (auto simp: aged_tracks_def)
  from p have "t \<in> set (map fst (fst (associate cfg (most_recent_first tracks) cs)))"
    by force
  then have "t \<in> set tracks"
    by (simp only: associate_tracks set_most_recent_first)
  moreover have "track_id t' = track_id t"
    by (simp add: t' age_track_id)
  moreover have "miss_counter t' = 0 \<or> miss_counter t' = miss_counter t + 1"
    by (simp add: t' age_miss_counter split: option.splits)
  ultimately show ?thesis by blast
qed

lemma live_to_aged:
  assumes "t \<in> set tracks"
  shows "\<exists>t' \<in> set (aged_tracks cfg tracks ts cs). track_id t' = track_id t
           \<and> (miss_counter t' = 0 \<or> miss_counter t' = miss_counter t + 1)"
proof -
  from assms have "t \<in> set (map fst (fst (associate cfg (most_recent_first tracks) cs)))"
    by (simp only: associate_tracks set_most_recent_first)
  then obtain mc where p: "(t, mc) \<in> set (fst (associate cfg (most_recent_first tracks) cs))"
    by auto
  then have "age ts (t, mc) \<in> set (aged_tracks cfg tracks ts cs)"
    by (auto simp: aged_tracks_def)
  moreover have "track_id (age ts (t, mc)) = track_id t"
    by (rule age_track_id)
  moreover have "miss_counter (age ts (t, mc)) = 0
                  \<or> miss_counter (age ts (t, mc)) = miss_counter t + 1"
    by (simp add: age_miss_counter split: option.splits)
  ultimately show ?thesis by blast
qed

lemma spawn_ids: "map track_id (spawn ts k cs) = [k ..< k + length cs]"
proof (induction cs arbitrary: k)
  case Nil
  show ?case by simp
next
  case (Cons c cs)
  have "[k ..< Suc (k + length cs)] = k # [Suc k ..< Suc (k + length cs)]"
    by (rule upt_conv_Cons) simp
  with Cons.IH [of "Suc k"] show ?case by simp
qed

lemma spawn_miss_counter: "t \<in> set (spawn ts k cs) \<Longrightarrow> miss_counter t = 0"
  by (induction cs arbitrary: k) auto

lemma spawn_id_range: "t \<in> set (spawn ts k cs) \<Longrightarrow> k \<le> track_id t \<and> track_id t < k + length cs"
proof -
  assume "t \<in> set (spawn ts k cs)"
  then have "track_id t \<in> set (map track_id (spawn ts k cs))"
    by simp
  then show ?thesis
    by (simp only: spawn_ids) simp
qed

lemma same_id_same_track:
  "distinct (map track_id ts) \<Longrightarrow> a \<in> set ts \<Longrightarrow> b \<in> set ts \<Longrightarrow> track_id a = track_id b
     \<Longrightarrow> a = b"
  by (auto simp: distinct_map dest: inj_onD)


lemma well_formed_iff:
  "well_formed cfg m \<longleftrightarrow>
     distinct (map track_id (live m))
     \<and> (\<forall>t \<in> set (live m). track_id t < next_id m \<and> miss_counter t \<le> grace cfg)"
  by (simp add: well_formed_def list_all_iff)

lemma update_tracks_result:
  "update_tracks cfg m ts cs =
     (\<lparr>live = filter (\<lambda>t. \<not> grace cfg < miss_counter t) (aged_tracks cfg (live m) ts cs)
              @ spawn ts (next_id m) (unmatched_candidates cfg (live m) cs),
       next_id = next_id m + length (unmatched_candidates cfg (live m) cs)\<rparr>,
      filter (\<lambda>t. grace cfg < miss_counter t) (aged_tracks cfg (live m) ts cs))"
  by (simp add: update_tracks_def Let_def)

lemma aged_distinct_ids:
  "distinct (map track_id tracks) \<Longrightarrow> distinct (map track_id (aged_tracks cfg tracks ts cs))"
  by (simp only: aged_tracks_ids distinct_ids_most_recent_first)

lemma update_tracks_well_formed:
  assumes wf: "well_formed cfg m"
  shows "well_formed cfg (fst (update_tracks cfg m ts cs))"
proof -
  let ?aged = "aged_tracks cfg (live m) ts cs"
  let ?surv = "filter (\<lambda>t. \<not> grace cfg < miss_counter t) ?aged"
  let ?new = "spawn ts (next_id m) (unmatched_candidates cfg (live m) cs)"
  let ?n = "length (unmatched_candidates cfg (live m) cs)"
  from wf have d: "distinct (map track_id (live m))"
    and b: "\<And>t. t \<in> set (live m) \<Longrightarrow> track_id t < next_id m"
    by (simp_all add: well_formed_iff)
  have aged_below: "track_id t < next_id m" if "t \<in> set ?aged" for t
    using aged_from_live [OF that] b by auto
  have "distinct (map track_id ?aged)"
    using d by (rule aged_distinct_ids)
  then have d1: "distinct (map track_id ?surv)"
    by (rule distinct_map_filter)
  have d2: "distinct (map track_id ?new)"
    by (simp only: spawn_ids distinct_upt)
  have d3: "set (map track_id ?surv) \<inter> set (map track_id ?new) = {}"
  proof -
    have "i < next_id m" if "i \<in> set (map track_id ?surv)" for i
      using that aged_below by auto
    moreover have "next_id m \<le> i" if "i \<in> set (map track_id ?new)" for i
      using that by (simp only: spawn_ids) simp
    ultimately show ?thesis by fastforce
  qed
  have dist: "distinct (map track_id (?surv @ ?new))"
    using d1 d2 d3 by simp
  have bounds: "track_id t < next_id m + ?n \<and> miss_counter t \<le> grace cfg"
    if "t \<in> set (?surv @ ?new)" for t
  proof (cases "t \<in> set ?surv")
    case True
    then have "t \<in> set ?aged" and "miss_counter t \<le> grace cfg" by auto
    with aged_below [of t] show ?thesis by simp
  next
    case False
    with that have "t \<in> set ?new" by auto
    from spawn_id_range [OF this] spawn_miss_counter [OF this] show ?thesis by simp
  qed
  show ?thesis
    unfolding update_tracks_result well_formed_iff using dist bounds by simp
qed

lemma process_frame_well_formed:
  "well_formed cfg m \<Longrightarrow> well_formed cfg (fst (process_frame cfg m f))"
  by (simp add: process_frame_def update_tracks_well_formed)

lemma run_frames_well_formed:
  "well_formed cfg m \<Longrightarrow> well_formed cfg (fst (run_frames cfg m fs))"
proof (induction fs arbitrary: m)
  case Nil
  then show ?case by simp
next
  case (Cons f fs)
  from Cons.prems have "well_formed cfg (fst (process_frame cfg m f))"
    by (rule process_frame_well_formed)
  then have "well_formed cfg (fst (run_frames cfg (fst (process_frame cfg m f)) fs))"
    by (rule Cons.IH)
  then show ?case
    by (simp add: case_prod_unfold Let_def)
qed

lemma empty_manager_well_formed: "well_formed cfg empty_manager"
  by (simp add: well_formed_def empty_manager_def)


text \<open>
  C5. Take the manager after any sequence of frames, and one more frame. Every live
  track has its updated version in that frame, with the miss counter reset or one
  higher. An updated track is among the terminated ones exactly when its miss counter
  exceeds the grace threshold, and its identifier is still in the live set exactly when
  it does not; the Detection records emitted are those of the terminated tracks, one
  each. A track is never late: no live track is above the threshold, so a terminated
  one has a miss counter of exactly the threshold plus one.
\<close>

theorem terminated_iff_miss_exceeds_grace:
  assumes run: "run_frames cfg empty_manager frames = (m, out)"
    and step: "process_frame cfg m frame = (m', terminated)"
    and aged: "aged = aged_tracks cfg (live m) (frame_timestamp frame) (frame_candidates frame)"
  shows "(\<forall>t \<in> set (live m). \<exists>t' \<in> set aged. track_id t' = track_id t
            \<and> (miss_counter t' = 0 \<or> miss_counter t' = miss_counter t + 1))
       \<and> (\<forall>t' \<in> set aged.
             (t' \<in> set terminated \<longleftrightarrow> grace cfg < miss_counter t')
           \<and> (track_id t' \<in> track_id ` set (live m') \<longleftrightarrow> \<not> grace cfg < miss_counter t')
           \<and> (grace cfg < miss_counter t' \<longrightarrow> miss_counter t' = grace cfg + 1))
       \<and> set terminated \<subseteq> set aged
       \<and> emitted_records cfg m frame = map detection_of terminated
       \<and> (\<forall>t \<in> set (live m'). miss_counter t \<le> grace cfg)"
proof -
  let ?new = "spawn (frame_timestamp frame) (next_id m)
                (unmatched_candidates cfg (live m) (frame_candidates frame))"
  have "well_formed cfg (fst (run_frames cfg empty_manager frames))"
    using empty_manager_well_formed by (rule run_frames_well_formed)
  with run have wf: "well_formed cfg m" by simp
  then have d: "distinct (map track_id (live m))"
    and below: "\<And>t. t \<in> set (live m) \<Longrightarrow> track_id t < next_id m"
    and misses: "\<And>t. t \<in> set (live m) \<Longrightarrow> miss_counter t \<le> grace cfg"
    by (simp_all add: well_formed_iff)
  from step have terminated_eq: "terminated = filter (\<lambda>t. grace cfg < miss_counter t) aged"
    and live': "live m' = filter (\<lambda>t. \<not> grace cfg < miss_counter t) aged @ ?new"
    by (auto simp: process_frame_def update_tracks_result aged)
  have d_aged: "distinct (map track_id aged)"
    unfolding aged using d by (rule aged_distinct_ids)
  have c1: "\<forall>t \<in> set (live m). \<exists>t' \<in> set aged. track_id t' = track_id t
            \<and> (miss_counter t' = 0 \<or> miss_counter t' = miss_counter t + 1)"
    unfolding aged using live_to_aged by blast
  have c2: "(t' \<in> set terminated \<longleftrightarrow> grace cfg < miss_counter t')
           \<and> (track_id t' \<in> track_id ` set (live m') \<longleftrightarrow> \<not> grace cfg < miss_counter t')
           \<and> (grace cfg < miss_counter t' \<longrightarrow> miss_counter t' = grace cfg + 1)"
    if t': "t' \<in> set aged" for t'
  proof -
    from t' obtain t where t: "t \<in> set (live m)" and id: "track_id t' = track_id t"
      and m: "miss_counter t' = 0 \<or> miss_counter t' = miss_counter t + 1"
      unfolding aged using aged_from_live by blast
    have p1: "t' \<in> set terminated \<longleftrightarrow> grace cfg < miss_counter t'"
      using t' by (simp add: terminated_eq)
    have p3: "grace cfg < miss_counter t' \<longrightarrow> miss_counter t' = grace cfg + 1"
      using m misses [OF t] by auto
    have not_new: "track_id t' \<notin> track_id ` set ?new"
    proof
      assume "track_id t' \<in> track_id ` set ?new"
      then obtain s where "s \<in> set ?new" and "track_id s = track_id t'" by auto
      with spawn_id_range [of s] have "next_id m \<le> track_id t'" by simp
      with below [OF t] id show False by simp
    qed
    have p2: "track_id t' \<in> track_id ` set (live m') \<longleftrightarrow> \<not> grace cfg < miss_counter t'"
    proof
      assume "track_id t' \<in> track_id ` set (live m')"
      with not_new obtain s where s: "s \<in> set aged" and ok: "\<not> grace cfg < miss_counter s"
        and same: "track_id s = track_id t'"
        by (auto simp: live')
      from d_aged s t' same have "s = t'" by (rule same_id_same_track)
      with ok show "\<not> grace cfg < miss_counter t'" by simp
    next
      assume "\<not> grace cfg < miss_counter t'"
      with t' show "track_id t' \<in> track_id ` set (live m')"
        by (simp add: live')
    qed
    from p1 p2 p3 show ?thesis by (intro conjI)
  qed
  have c3: "set terminated \<subseteq> set aged"
    by (auto simp: terminated_eq)
  have c4: "emitted_records cfg m frame = map detection_of terminated"
    by (simp add: emitted_records_def step)
  have "well_formed cfg (fst (process_frame cfg m frame))"
    using wf by (rule process_frame_well_formed)
  then have c5: "\<forall>t \<in> set (live m'). miss_counter t \<le> grace cfg"
    by (simp add: step well_formed_iff)
  from c1 c2 c3 c4 c5 show ?thesis by blast
qed

text \<open>
  The scenario of section 8 with grace threshold 5: after five frames without
  candidates the track is still live, and the sixth terminates it.
\<close>

lemma scenario_run:
  "run_frames scenario_config empty_manager scenario_frames =
     (\<lparr>live = [scenario_track 5], next_id = 1\<rparr>, [])"
  by code_simp

lemma scenario_last_gap:
  "process_frame scenario_config \<lparr>live = [scenario_track 5], next_id = 1\<rparr> Capture_gap =
     (\<lparr>live = [], next_id = 1\<rparr>, [scenario_track 6])"
  by code_simp

lemma scenario_aged:
  "[scenario_track 6] =
     aged_tracks scenario_config (live \<lparr>live = [scenario_track 5], next_id = 1\<rparr>)
       (frame_timestamp Capture_gap) (frame_candidates Capture_gap)"
  by code_simp


lemma scenario_records:
  "map detection_of (snd (run_frames scenario_config empty_manager
       (scenario_frames @ [Capture_gap]))) = [\<lparr>start_time = 1, end_time = 3\<rparr>]"
  by code_simp

theorem terminated_iff_miss_exceeds_grace_witness:
  "run_frames scenario_config empty_manager scenario_frames =
     (\<lparr>live = [scenario_track 5], next_id = 1\<rparr>, [])
   \<and> process_frame scenario_config \<lparr>live = [scenario_track 5], next_id = 1\<rparr> Capture_gap =
     (\<lparr>live = [], next_id = 1\<rparr>, [scenario_track 6])
   \<and> grace scenario_config < miss_counter (scenario_track 6)
   \<and> miss_counter (scenario_track 6) = grace scenario_config + 1
   \<and> track_id (scenario_track 6) \<notin> track_id ` set (live \<lparr>live = [], next_id = 1\<rparr>)
   \<and> emitted_records scenario_config \<lparr>live = [scenario_track 5], next_id = 1\<rparr> Capture_gap =
       [detection_of (scenario_track 6)]"
proof -
  note facts = terminated_iff_miss_exceeds_grace [OF scenario_run scenario_last_gap scenario_aged]
  from facts have each:
    "\<forall>t' \<in> set [scenario_track 6].
       (t' \<in> set [scenario_track 6] \<longleftrightarrow> grace scenario_config < miss_counter t')
     \<and> (track_id t' \<in> track_id ` set (live \<lparr>live = [], next_id = 1\<rparr>)
          \<longleftrightarrow> \<not> grace scenario_config < miss_counter t')
     \<and> (grace scenario_config < miss_counter t'
          \<longrightarrow> miss_counter t' = grace scenario_config + 1)"
    by (elim conjE)
  then have over: "grace scenario_config < miss_counter (scenario_track 6)"
    and gone: "track_id (scenario_track 6) \<notin> track_id ` set (live \<lparr>live = [], next_id = 1\<rparr>)"
    and exact: "miss_counter (scenario_track 6) = grace scenario_config + 1"
    by simp_all
  from facts have records:
    "emitted_records scenario_config \<lparr>live = [scenario_track 5], next_id = 1\<rparr> Capture_gap =
       map detection_of [scenario_track 6]"
    by (elim conjE)
  from scenario_run scenario_last_gap over exact gone records show ?thesis
    by simp
qed

end
